theory Spec2Isabelle
  imports Main "HOL-Library.Sublist"
begin

section \<open>The workspaces task runner (src/workspaces.py)\<close>

text \<open>
  The script enumerates workspace package directories, filters them by name and runs
  shell commands in each of them. Its functions are embedded here one by one, under
  their own names. Python \<open>str\<close> values are modelled as \<open>string\<close>; an exception is
  the \<open>Inl\<close> branch of a sum; the process state the script reads and writes (working
  directory, directory tree, what it printed and ran) is an explicit \<open>world\<close> record.
\<close>

subsection \<open>String helpers of the Python runtime\<close>

text \<open>\<open>s.split(c)\<close> for a one-character separator: always at least one part.\<close>

fun str_split :: "char \<Rightarrow> string \<Rightarrow> string list" where
  "str_split c [] = [[]]"
| "str_split c (x # xs) =
     (if x = c then [] # str_split c xs
      else (case str_split c xs of
              [] \<Rightarrow> [[x]]
            | p # ps \<Rightarrow> (x # p) # ps))"

text \<open>\<open>sep.join(parts)\<close>.\<close>

fun str_join :: "string \<Rightarrow> string list \<Rightarrow> string" where
  "str_join sep [] = []"
| "str_join sep [p] = p"
| "str_join sep (p # q # ps) = p @ sep @ str_join sep (q # ps)"

text \<open>\<open>t in s\<close> on strings: \<open>t\<close> occurs in \<open>s\<close> as a contiguous substring.\<close>

fun str_in :: "string \<Rightarrow> string \<Rightarrow> bool" where
  "str_in t [] = (t = [])"
| "str_in t (c # cs) = (prefix t (c # cs) \<or> str_in t cs)"

text \<open>\<open>os.path.join(a, b)\<close> of posixpath, for two arguments.\<close>

definition os_path_join :: "string \<Rightarrow> string \<Rightarrow> string" where
  "os_path_join a b =
     (if prefix ''/'' b then b
      else if a = [] \<or> suffix ''/'' a then a @ b
      else a @ ''/'' @ b)"

subsection \<open>Package name filter\<close>

text \<open>The \<open>for term in ...: if term in name: return True\<close> loop of \<open>matches\<close>.\<close>

fun matches_loop :: "string \<Rightarrow> string list \<Rightarrow> bool" where
  "matches_loop name [] = False"
| "matches_loop name (t # ts) = (if str_in t name then True else matches_loop name ts)"

text \<open>
  \<open>matches(package, packages)\<close>: \<open>not packages\<close> is the empty filter string;
  \<open>package.split('/')[-1]\<close> is the last part, which exists because a split is never empty.
\<close>

definition matches :: "string \<Rightarrow> string \<Rightarrow> bool" where
  "matches package pkgs =
     (if pkgs = [] then True
      else (let name = last (str_split CHR ''/'' package)
            in matches_loop name (str_split CHR '','' pkgs)))"

subsection \<open>What the filter means, in the words of the specification\<close>

text \<open>
  The final path segment of a path: what follows its last \<open>/\<close> (the whole path when it
  has none).
\<close>

definition spec_final_segment :: "string \<Rightarrow> string" where
  "spec_final_segment p = rev (takeWhile (\<lambda>c. c \<noteq> CHR ''/'') (rev p))"

text \<open>
  \<open>ts\<close> are the terms of the filter \<open>f\<close> split on commas: joining them with commas
  gives \<open>f\<close> back and no term holds a comma.
\<close>

definition spec_terms :: "string \<Rightarrow> string list \<Rightarrow> bool" where
  "spec_terms f ts \<longleftrightarrow>
     ts \<noteq> [] \<and> (\<forall>t \<in> set ts. CHR '','' \<notin> set t) \<and> str_join '','' ts = f"

text \<open>
  A package is selected by the filter when its final path segment contains at least one
  term as a substring (\<open>sublist\<close>: some prefix and suffix around the term give the
  segment).
\<close>

definition spec_selected :: "string \<Rightarrow> string \<Rightarrow> bool" where
  "spec_selected f p \<longleftrightarrow>
     (\<exists>ts. spec_terms f ts \<and> (\<exists>t \<in> set ts. sublist t (spec_final_segment p)))"

subsection \<open>The process and its environment\<close>

text \<open>
  The directory tree is a map from absolute paths to nodes; a directory carries its
  entries in the order \<open>os.listdir\<close> enumerates them. The normalisation that
  \<open>os.path.abspath\<close> applies (collapsing \<open>.\<close>, \<open>..\<close> and doubled separators) is not
  modelled: an absolute path is the working directory joined with the relative one.
\<close>

datatype node = File | Dir "string list"

type_synonym filesystem = "string \<Rightarrow> node option"

text \<open>
  What the process did, in order: a line printed, a command handed to the shell by
  \<open>os.system\<close> or \<open>subprocess.run\<close> (with the directory it ran in), a directory tree
  removed by \<open>shutil.rmtree\<close> (its absolute path), a worker pool created.
\<close>

datatype event =
    Print string
  | System string string
  | Subprocess string string
  | Removed string
  | ThreadPool int

record world =
  cwd :: string
  files :: filesystem
  trace :: "event list"

datatype error = RuntimeError string | OSError string | UnicodeDecodeError

type_synonym 'a action = "world \<Rightarrow> (error + 'a) \<times> world"

text \<open>
  The shell is outside the program: given the command, the directory it runs in and the
  directory tree, it yields the exit status, the bytes written to standard output and the
  directory tree it leaves. A child process cannot change the working directory of its
  parent.
\<close>

type_synonym shell = "string \<Rightarrow> string \<Rightarrow> filesystem \<Rightarrow> int \<times> string \<times> filesystem"

definition return :: "'a \<Rightarrow> 'a action" where
  "return x w = (Inr x, w)"

definition raise :: "error \<Rightarrow> 'a action" where
  "raise e w = (Inl e, w)"

definition and_then :: "'a action \<Rightarrow> ('a \<Rightarrow> 'b action) \<Rightarrow> 'b action" where
  "and_then m f w = (case m w of (Inl e, w1) \<Rightarrow> (Inl e, w1) | (Inr x, w1) \<Rightarrow> f x w1)"

text \<open>
  \<open>try: body finally: fin\<close>: \<open>fin\<close> runs whatever \<open>body\<close> did; an exception of
  \<open>fin\<close> replaces the outcome of \<open>body\<close>.
\<close>

definition try_finally :: "'a action \<Rightarrow> unit action \<Rightarrow> 'a action" where
  "try_finally body fin w =
     (case body w of (r, w1) \<Rightarrow>
        (case fin w1 of (Inl e, w2) \<Rightarrow> (Inl e, w2) | (Inr u, w2) \<Rightarrow> (r, w2)))"

definition py_print :: "string \<Rightarrow> unit action" where
  "py_print s w = (Inr (), w\<lparr>trace := trace w @ [Print s]\<rparr>)"

definition os_path_isabs :: "string \<Rightarrow> bool" where
  "os_path_isabs p = prefix ''/'' p"

definition os_path_abspath :: "string \<Rightarrow> world \<Rightarrow> string" where
  "os_path_abspath p w = os_path_join (cwd w) p"

definition os_path_isdir :: "string \<Rightarrow> world \<Rightarrow> bool" where
  "os_path_isdir p w = (case files w (os_path_abspath p w) of Some (Dir ns) \<Rightarrow> True | _ \<Rightarrow> False)"

definition os_path_exists :: "string \<Rightarrow> world \<Rightarrow> bool" where
  "os_path_exists p w = (files w (os_path_abspath p w) \<noteq> None)"

definition os_listdir :: "string \<Rightarrow> string list action" where
  "os_listdir p w =
     (case files w (os_path_abspath p w) of
        Some (Dir ns) \<Rightarrow> (Inr ns, w)
      | _ \<Rightarrow> (Inl (OSError p), w))"

definition os_chdir :: "string \<Rightarrow> unit action" where
  "os_chdir p w =
     (if os_path_isdir p w then (Inr (), w\<lparr>cwd := os_path_abspath p w\<rparr>)
      else (Inl (OSError p), w))"

text \<open>Removing a tree takes the directory, everything below it and its entry in the parent.\<close>

definition remove_tree :: "string \<Rightarrow> filesystem \<Rightarrow> filesystem" where
  "remove_tree t f =
     (\<lambda>q. if q = t \<or> prefix (t @ ''/'') q then None
          else (case f q of
                  Some (Dir ns) \<Rightarrow> Some (Dir (filter (\<lambda>n. os_path_join q n \<noteq> t) ns))
                | r \<Rightarrow> r))"

definition shutil_rmtree :: "string \<Rightarrow> unit action" where
  "shutil_rmtree p w =
     (if os_path_isdir p w
      then (Inr (), w\<lparr>files := remove_tree (os_path_abspath p w) (files w),
                       trace := trace w @ [Removed (os_path_abspath p w)]\<rparr>)
      else (Inl (OSError p), w))"

text \<open>
  \<open>os.system(s)\<close> returns the wait status, which is nonzero exactly when the exit
  status is; \<open>subprocess.run(s, shell=True, stdout=PIPE)\<close> returns the exit status
  together with the captured bytes. Neither raises.
\<close>

definition os_system :: "shell \<Rightarrow> string \<Rightarrow> int action" where
  "os_system sh s w =
     (case sh s (cwd w) (files w) of (st, out, f) \<Rightarrow>
        (Inr st, w\<lparr>files := f, trace := trace w @ [System s (cwd w)]\<rparr>))"

definition subprocess_run :: "shell \<Rightarrow> string \<Rightarrow> (int \<times> string) action" where
  "subprocess_run sh s w =
     (case sh s (cwd w) (files w) of (st, out, f) \<Rightarrow>
        (Inr (st, out), w\<lparr>files := f, trace := trace w @ [Subprocess s (cwd w)]\<rparr>))"

text \<open>
  Well-formed UTF-8 (no overlong forms, no surrogates, nothing above U+10FFFF), on byte
  values. A Python \<open>str\<close> is kept as its UTF-8 bytes, so decoding valid bytes gives the
  same characters and decoding anything else raises.
\<close>

definition utf8_cont :: "nat \<Rightarrow> bool" where
  "utf8_cont b \<longleftrightarrow> 0x80 \<le> b \<and> b \<le> 0xBF"

fun utf8_ok :: "nat list \<Rightarrow> bool" where
  "utf8_ok [] = True"
| "utf8_ok (b0 # bs) =
     (if b0 < 0x80 then utf8_ok bs
      else if 0xC2 \<le> b0 \<and> b0 \<le> 0xDF then
        (case bs of b1 # r \<Rightarrow> utf8_cont b1 \<and> utf8_ok r | _ \<Rightarrow> False)
      else if 0xE0 \<le> b0 \<and> b0 \<le> 0xEF then
        (case bs of
           b1 # b2 # r \<Rightarrow>
             (if b0 = 0xE0 then 0xA0 \<le> b1 \<and> b1 \<le> 0xBF
              else if b0 = 0xED then 0x80 \<le> b1 \<and> b1 \<le> 0x9F
              else utf8_cont b1)
             \<and> utf8_cont b2 \<and> utf8_ok r
         | _ \<Rightarrow> False)
      else if 0xF0 \<le> b0 \<and> b0 \<le> 0xF4 then
        (case bs of
           b1 # b2 # b3 # r \<Rightarrow>
             (if b0 = 0xF0 then 0x90 \<le> b1 \<and> b1 \<le> 0xBF
              else if b0 = 0xF4 then 0x80 \<le> b1 \<and> b1 \<le> 0x8F
              else utf8_cont b1)
             \<and> utf8_cont b2 \<and> utf8_cont b3 \<and> utf8_ok r
         | _ \<Rightarrow> False)
      else False)"

definition decode_utf8 :: "string \<Rightarrow> string action" where
  "decode_utf8 b = (if utf8_ok (map of_char b) then return b else raise UnicodeDecodeError)"

subsection \<open>Running a command: \<open>handle_path\<close>, \<open>cmd\<close>, \<open>run\<close>\<close>

definition quoted :: "string \<Rightarrow> string" where
  "quoted s = [CHR 0x27] @ s @ [CHR 0x27]"

definition handle_path :: "string \<Rightarrow> string option \<Rightarrow> bool \<Rightarrow> unit action" where
  "handle_path s path verbose =
     and_then
       (case path of
          None \<Rightarrow> return s
        | Some p \<Rightarrow> and_then (os_chdir p) (\<lambda>_. return (s @ '' # in '' @ quoted p)))
       (\<lambda>desc. if verbose then py_print desc else return ())"

text \<open>\<open>os.path.abspath(os.curdir)\<close> is the working directory itself.\<close>

definition cmd :: "shell \<Rightarrow> string \<Rightarrow> string option \<Rightarrow> bool \<Rightarrow> unit action" where
  "cmd sh s path verbose w =
     (let home = cwd w
      in try_finally
           (and_then (handle_path s path verbose) (\<lambda>_.
            and_then (os_system sh s) (\<lambda>st.
              if st \<noteq> 0 then raise (RuntimeError (''Error executing '' @ quoted s))
              else return ())))
           (os_chdir home) w)"

definition run :: "shell \<Rightarrow> string \<Rightarrow> string option \<Rightarrow> bool \<Rightarrow> string action" where
  "run sh s path verbose w =
     (let home = cwd w
      in try_finally
           (and_then (handle_path s path verbose) (\<lambda>_.
            and_then (subprocess_run sh s) (\<lambda>(returncode, stdout).
            and_then (decode_utf8 stdout) (\<lambda>out.
              if returncode \<noteq> 0 then raise (RuntimeError (''Error executing '' @ quoted s))
              else return out))))
           (os_chdir home) w)"

subsection \<open>\<open>thread_map\<close>\<close>

text \<open>The comprehension \<open>[callable(x) for x in inputs]\<close>, building its result by appending.\<close>

fun list_comp :: "('a \<Rightarrow> 'b action) \<Rightarrow> 'a list \<Rightarrow> 'b list \<Rightarrow> 'b list action" where
  "list_comp f [] acc w = (Inr acc, w)"
| "list_comp f (x # xs) acc w =
     (case f x w of
        (Inl e, w1) \<Rightarrow> (Inl e, w1)
      | (Inr y, w1) \<Rightarrow> list_comp f xs (acc @ [y]) w1)"

text \<open>
  What a \<open>multiprocessing.pool.ThreadPool\<close> of a given size does with a callable and its
  inputs is a parameter \<open>pool\<close>: the interleaving of its workers is not part of the
  program. Creating the pool is recorded.
\<close>

definition thread_map ::
  "(int \<Rightarrow> ('a \<Rightarrow> 'b action) \<Rightarrow> 'a list \<Rightarrow> 'b list action) \<Rightarrow>
   ('a \<Rightarrow> 'b action) \<Rightarrow> 'a list \<Rightarrow> int \<Rightarrow> 'b list action" where
  "thread_map pool callable inputs nb_threads w =
     (if length inputs = 0 then (Inr [], w)
      else if nb_threads = 1 then list_comp callable inputs [] w
      else pool nb_threads callable inputs (w\<lparr>trace := trace w @ [ThreadPool nb_threads]\<rparr>))"

subsection \<open>Selecting the packages\<close>

record args =
  args_packages :: string
  dist_only :: bool
  node_modules_only :: bool

definition seed_packages :: "string list" where
  "seed_packages = [''packages/cdn'', ''smc-util'', ''smc-hub'', ''smc-webapp'', ''webapp-lib'']"

text \<open>The loop over \<open>os.listdir('packages')\<close>, appending to \<open>v\<close>.\<close>

fun discover :: "world \<Rightarrow> string list \<Rightarrow> string list \<Rightarrow> string list" where
  "discover w v [] = v"
| "discover w v (x # xs) =
     (let path = os_path_join ''packages'' x
      in if path \<notin> set v \<and> os_path_isdir path w then discover w (v @ [path]) xs
         else discover w v xs)"

text \<open>The list \<open>v\<close> of \<open>packages\<close> before it is filtered.\<close>

definition assembled :: "string list action" where
  "assembled = and_then (os_listdir ''packages'') (\<lambda>names w. (Inr (discover w seed_packages names), w))"

definition packages :: "args \<Rightarrow> string list action" where
  "packages a =
     and_then assembled (\<lambda>v.
       let p = filter (\<lambda>x. matches x (args_packages a)) v
       in and_then (py_print (''Packages:  '' @ str_join '', '' p)) (\<lambda>_. return p))"

subsection \<open>The handlers \<open>ci\<close>, \<open>build\<close> and \<open>clean\<close>\<close>

text \<open>A \<open>for\<close> loop whose body may raise.\<close>

fun for_each :: "('a \<Rightarrow> unit action) \<Rightarrow> 'a list \<Rightarrow> unit action" where
  "for_each body [] w = (Inr (), w)"
| "for_each body (x # xs) w =
     (case body x w of
        (Inl e, w1) \<Rightarrow> (Inl e, w1)
      | (Inr u, w1) \<Rightarrow> for_each body xs w1)"


text \<open>The body of the loop of \<open>build\<close>.\<close>

definition build_package :: "shell \<Rightarrow> string \<Rightarrow> unit action" where
  "build_package sh path =
     and_then
       (if path \<noteq> ''packages/static'' then
          (let dist = os_path_join path ''dist''
           in (\<lambda>w. if os_path_exists dist w then shutil_rmtree dist w else return () w))
        else return ())
       (\<lambda>_. cmd sh ''time npm run build'' (Some path) True)"

definition build :: "shell \<Rightarrow> args \<Rightarrow> unit action" where
  "build sh a = and_then (packages a) (\<lambda>v. for_each (build_package sh) v)"

definition banner :: "string \<Rightarrow> unit action" where
  "banner s =
     and_then (py_print ([CHR 0x0A] @ replicate 70 CHR ''=''))  (\<lambda>_.
     and_then (py_print (''|| '' @ s)) (\<lambda>_.
     py_print (replicate 70 CHR ''='' @ [CHR 0x0A])))"

definition clean_folders :: "args \<Rightarrow> string list" where
  "clean_folders a =
     (if dist_only a then [''dist'']
      else if node_modules_only a then [''node_modules'']
      else [''node_modules'', ''dist''])"

text \<open>The two nested loops of \<open>clean\<close> that collect the existing folders into \<open>paths\<close>.\<close>

definition clean_paths :: "world \<Rightarrow> string list \<Rightarrow> string list \<Rightarrow> string list" where
  "clean_paths w v folders =
     foldl (\<lambda>paths path.
       foldl (\<lambda>paths x.
         (let y = os_path_abspath (os_path_join path x) w
          in if os_path_exists y w then paths @ [y] else paths))
         paths folders)
       [] v"

definition clean_f :: "string \<Rightarrow> unit action" where
  "clean_f path = and_then (py_print (''rm -rf '' @ quoted path)) (\<lambda>_. shutil_rmtree path)"

definition clean_g :: "shell \<Rightarrow> string \<Rightarrow> unit action" where
  "clean_g sh path = cmd sh ''npm run clean --if-present'' (Some path) True"

definition clean ::
  "(int \<Rightarrow> (string \<Rightarrow> unit action) \<Rightarrow> string list \<Rightarrow> unit list action) \<Rightarrow>
   shell \<Rightarrow> args \<Rightarrow> unit action" where
  "clean pool sh a =
     and_then (packages a) (\<lambda>v w.
       (let folders = clean_folders a;
            paths = clean_paths w v folders
        in and_then
             (if length paths = 0 then banner ''No node_modules or dist directories''
              else and_then (banner (''Deleting '' @ str_join '', '' paths)) (\<lambda>_.
                   and_then (thread_map pool clean_f paths 10) (\<lambda>_. return ())))
             (\<lambda>_.
              and_then (banner (''Running '' @ quoted ''npm run clean'' @ '' if it exists...'')) (\<lambda>_ w1.
              and_then (thread_map pool (clean_g sh) (map (\<lambda>path. os_path_abspath path w1) v) 10)
                (\<lambda>_. return ()) w1))
             w))"

subsection \<open>Notions used in the statements\<close>

text \<open>The generic execution error that \<open>cmd\<close> and \<open>run\<close> raise for the command \<open>s\<close>.\<close>

definition execution_error :: "string \<Rightarrow> error" where
  "execution_error s = RuntimeError (''Error executing '' @ quoted s)"

text \<open>The call returned normally, or raised the generic execution error.\<close>

definition returned_or_execution_error :: "error + 'a \<Rightarrow> bool" where
  "returned_or_execution_error r =
     (case r of Inr x \<Rightarrow> True | Inl (RuntimeError m) \<Rightarrow> True | Inl e \<Rightarrow> False)"

text \<open>
  What the \<open>finally\<close> clause \<open>os.chdir(home)\<close> makes of the outcome of the \<open>try\<close>
  block: it re-enters \<open>home\<close> when that is still a directory, and raises otherwise.
\<close>

definition restored :: "string \<Rightarrow> (error + 'a) \<times> world \<Rightarrow> (error + 'a) \<times> world" where
  "restored home rw =
     (case rw of (r, w) \<Rightarrow>
        if os_path_isdir home w then (r, w\<lparr>cwd := os_path_abspath home w\<rparr>)
        else (Inl (OSError home), w))"

text \<open>
  Directory entries are names: not empty and without a separator. This is asked of the
  listing of \<open>packages\<close>, the only one the program reads.
\<close>

definition valid_names :: "world \<Rightarrow> bool" where
  "valid_names w =
     (case fst (os_listdir ''packages'' w) of
        Inl e \<Rightarrow> True
      | Inr names \<Rightarrow> list_all (\<lambda>x. x \<noteq> [] \<and> CHR ''/'' \<notin> set x) names)"

definition plain_relative :: "string \<Rightarrow> bool" where
  "plain_relative p \<longleftrightarrow> p \<noteq> [] \<and> \<not> prefix ''/'' p \<and> \<not> suffix ''/'' p"


subsection \<open>A concrete workspace\<close>

definition example_tree :: filesystem where
  "example_tree =
     [''/r'' \<mapsto> Dir [''packages'', ''smc-util'', ''smc-hub'', ''smc-webapp'', ''webapp-lib''],
      ''/r/packages'' \<mapsto> Dir [''extra'', ''cdn'', ''README'', ''static''],
      ''/r/packages/cdn'' \<mapsto> Dir [],
      ''/r/packages/extra'' \<mapsto> Dir [''dist''],
      ''/r/packages/extra/dist'' \<mapsto> Dir [],
      ''/r/packages/static'' \<mapsto> Dir [''dist''],
      ''/r/packages/static/dist'' \<mapsto> Dir [],
      ''/r/packages/README'' \<mapsto> File,
      ''/r/smc-util'' \<mapsto> Dir [],
      ''/r/smc-hub'' \<mapsto> Dir [''node_modules''],
      ''/r/smc-hub/node_modules'' \<mapsto> Dir [],
      ''/r/smc-webapp'' \<mapsto> Dir [],
      ''/r/webapp-lib'' \<mapsto> Dir []]"

definition example_world :: world where
  "example_world = \<lparr>cwd = ''/r'', files = example_tree, trace = []\<rparr>"

definition example_assembled :: "string list" where
  "example_assembled =
     [''packages/cdn'', ''smc-util'', ''smc-hub'', ''smc-webapp'', ''webapp-lib'',
      ''packages/extra'', ''packages/static'']"

definition example_args :: "string \<Rightarrow> args" where
  "example_args f = \<lparr>args_packages = f, dist_only = True, node_modules_only = True\<rparr>"

text \<open>A shell in which every command fails in \<open>smc-webapp\<close> and succeeds elsewhere.\<close>

definition example_shell :: shell where
  "example_shell s d f = (if d = ''/r/smc-webapp'' then 1 else 0, ''ok'', f)"

text \<open>A shell whose commands write the byte \<open>0xFF\<close> and exit with the given status.\<close>

definition garbage_shell :: "int \<Rightarrow> shell" where
  "garbage_shell st s d f = (st, [CHR 0xFF], f)"


text \<open>
  A shell that behaves as \<open>example_shell\<close>, except that outside \<open>packages/static\<close> it
  refuses to run where a \<open>dist\<close> entry is present.
\<close>

definition strict_shell :: shell where
  "strict_shell s d f =
     (if d \<noteq> ''/r/packages/static'' \<and> f (os_path_join d ''dist'') \<noteq> None
      then (2, ''dist is in the way'', f)
      else example_shell s d f)"

text \<open>A worker pool that happens to run its inputs one after the other.\<close>

definition example_pool ::
  "int \<Rightarrow> (string \<Rightarrow> unit action) \<Rightarrow> string list \<Rightarrow> unit list action" where
  "example_pool n f xs = list_comp f xs []"

subsection \<open>Facts about the string helpers\<close>

lemma str_split_nonempty: "str_split c s \<noteq> []"
  by (induction s) (auto split: list.splits)

lemma str_split_no_sep: "t \<in> set (str_split c s) \<Longrightarrow> c \<notin> set t"
proof (induction s arbitrary: t)
  case Nil
  then show ?case by simp
next
  case (Cons x xs)
  show ?case
  proof (cases "x = c")
    case True
    with Cons show ?thesis by auto
  next
    case False
    obtain p ps where sp: "str_split c xs = p # ps"
      using str_split_nonempty [of c xs] by (cases "str_split c xs") auto
    with False Cons.prems have "t = x # p \<or> t \<in> set ps" by auto
    then show ?thesis
    proof
      assume "t = x # p"
      moreover have "c \<notin> set p" using Cons.IH [of p] sp by simp
      ultimately show ?thesis using False by auto
    next
      assume "t \<in> set ps"
      then show ?thesis using Cons.IH [of t] sp by simp
    qed
  qed
qed

lemma str_join_Cons: "ps \<noteq> [] \<Longrightarrow> str_join sep (p # ps) = p @ sep @ str_join sep ps"
  by (cases ps) auto

lemma str_join_split: "str_join [c] (str_split c s) = s"
proof (induction s)
  case Nil
  then show ?case by simp
next
  case (Cons x xs)
  obtain p ps where sp: "str_split c xs = p # ps"
    using str_split_nonempty [of c xs] by (cases "str_split c xs") auto
  show ?case
  proof (cases "x = c")
    case True
    then show ?thesis using Cons sp by (simp add: str_join_Cons)
  next
    case False
    have "str_join [c] ((x # p) # ps) = x # str_join [c] (p # ps)"
      by (cases ps) auto
    then show ?thesis using False Cons sp by simp
  qed
qed

text \<open>A list of separator-free parts is the split of its join: the split is unique.\<close>

lemma str_split_join:
  "ts \<noteq> [] \<Longrightarrow> \<forall>t \<in> set ts. c \<notin> set t \<Longrightarrow> str_split c (str_join [c] ts) = ts"
proof (induction ts)
  case Nil
  then show ?case by simp
next
  case (Cons t ts)
  have nosep: "c \<notin> set t" using Cons.prems by simp
  show ?case
  proof (cases "ts = []")
    case True
    have "c \<notin> set u \<Longrightarrow> str_split c u = [u]" for u
      by (induction u) auto
    then show ?thesis using True nosep by simp
  next
    case False
    then have rest: "str_split c (str_join [c] ts) = ts" using Cons by simp
    have "c \<notin> set u \<Longrightarrow> str_split c (u @ c # r) = u # str_split c r" for u r
      by (induction u) auto
    then show ?thesis using False nosep rest by (simp add: str_join_Cons)
  qed
qed

lemma spec_terms_iff: "spec_terms f ts \<longleftrightarrow> ts = str_split CHR '','' f"
proof
  assume "spec_terms f ts"
  then show "ts = str_split CHR '','' f"
    unfolding spec_terms_def using str_split_join [of ts "CHR '',''"] by auto
next
  assume "ts = str_split CHR '','' f"
  then show "spec_terms f ts"
    unfolding spec_terms_def
    using str_split_nonempty str_split_no_sep str_join_split [of "CHR '',''" f] by auto
qed

lemma str_in_iff: "str_in t s \<longleftrightarrow> sublist t s"
proof (induction s)
  case Nil
  then show ?case by simp
next
  case (Cons c cs)
  then show ?case by (cases t) (auto simp: sublist_Cons_right)
qed

lemma str_split_no_occurrence: "c \<notin> set u \<Longrightarrow> str_split c u = [u]"
  by (induction u) auto

lemma str_split_append: "str_split c (r @ c # u) = str_split c r @ str_split c u"
proof (induction r)
  case Nil
  then show ?case by simp
next
  case (Cons x r)
  then show ?case
    using str_split_nonempty [of c r] by (auto split: list.splits)
qed

lemma last_split_final_segment: "last (str_split CHR ''/'' p) = spec_final_segment p"
proof -
  let ?seg = "spec_final_segment p"
  have seg: "CHR ''/'' \<notin> set ?seg"
    unfolding spec_final_segment_def using set_takeWhileD by fastforce
  show ?thesis
  proof (cases "CHR ''/'' \<in> set p")
    case False
    then have "\<forall>c \<in> set (rev p). c \<noteq> CHR ''/''" by auto
    then have tw: "takeWhile (\<lambda>c. c \<noteq> CHR ''/'') (rev p) = rev p" by simp
    have "?seg = p"
      by (simp only: spec_final_segment_def tw rev_rev_ident)
    then show ?thesis using False by (simp add: str_split_no_occurrence)
  next
    case True
    define d where "d = dropWhile (\<lambda>c. c \<noteq> CHR ''/'') (rev p)"
    have "d \<noteq> []" using True by (auto simp: d_def)
    then obtain x r where d: "d = x # r" by (cases d) auto
    have "x = CHR ''/''"
      using hd_dropWhile [of "\<lambda>c. c \<noteq> CHR ''/''" "rev p"] d True by (simp add: d_def)
    moreover have "rev p = rev ?seg @ d"
      by (simp add: spec_final_segment_def d_def)
    ultimately have "rev (rev p) = rev (rev ?seg @ CHR ''/'' # r)" using d by simp
    then have "p = rev r @ CHR ''/'' # ?seg" by (simp only: rev_rev_ident rev_append rev.simps append.assoc append_Cons append_Nil)
    then have "str_split CHR ''/'' p = str_split CHR ''/'' (rev r) @ [?seg]"
      using str_split_append [of "CHR ''/''" "rev r" ?seg] seg
      by (simp add: str_split_no_occurrence)
    then show ?thesis by simp
  qed
qed

lemma matches_loop_iff: "matches_loop name ts \<longleftrightarrow> (\<exists>t \<in> set ts. str_in t name)"
  by (induction ts) auto

lemma matches_iff_spec: "matches p f \<longleftrightarrow> f = [] \<or> spec_selected f p"
  by (auto simp: matches_def spec_selected_def spec_terms_iff matches_loop_iff str_in_iff
      last_split_final_segment)

subsection \<open>Facts about running a command\<close>

lemma os_path_join_abs: "os_path_isabs p \<Longrightarrow> os_path_join c p = p"
  by (simp add: os_path_join_def os_path_isabs_def)

lemma try_finally_chdir: "try_finally body (os_chdir home) w = restored home (body w)"
  by (auto simp: try_finally_def os_chdir_def restored_def split: prod.splits)

lemma handle_path_None:
  "handle_path s None verbose w = (Inr (), if verbose then w\<lparr>trace := trace w @ [Print s]\<rparr> else w)"
  by (simp add: handle_path_def and_then_def return_def py_print_def)

lemma handle_path_Some:
  "handle_path s (Some p) verbose w =
     (if os_path_isdir p w
      then (Inr (), if verbose
                    then w\<lparr>cwd := os_path_abspath p w, trace := trace w @ [Print (s @ '' # in '' @ quoted p)]\<rparr>
                    else w\<lparr>cwd := os_path_abspath p w\<rparr>)
      else (Inl (OSError p), w))"
  by (simp add: handle_path_def and_then_def return_def py_print_def os_chdir_def)

lemma cmd_unfold:
  "cmd sh s path verbose w =
     restored (cwd w)
       (case handle_path s path verbose w of
          (Inl e, w1) \<Rightarrow> (Inl e, w1)
        | (Inr u, w1) \<Rightarrow>
            (case sh s (cwd w1) (files w1) of (st, out, f) \<Rightarrow>
               (if st \<noteq> 0 then Inl (execution_error s) else Inr (),
                w1\<lparr>files := f, trace := trace w1 @ [System s (cwd w1)]\<rparr>)))"
  by (auto simp: cmd_def Let_def try_finally_chdir and_then_def os_system_def raise_def return_def
      execution_error_def split: prod.splits sum.splits)

lemma run_unfold:
  "run sh s path verbose w =
     restored (cwd w)
       (case handle_path s path verbose w of
          (Inl e, w1) \<Rightarrow> (Inl e, w1)
        | (Inr u, w1) \<Rightarrow>
            (case sh s (cwd w1) (files w1) of (st, out, f) \<Rightarrow>
               (if \<not> utf8_ok (map of_char out) then Inl UnicodeDecodeError
                else if st \<noteq> 0 then Inl (execution_error s) else Inr out,
                w1\<lparr>files := f, trace := trace w1 @ [Subprocess s (cwd w1)]\<rparr>)))"
  by (auto simp: run_def Let_def try_finally_chdir and_then_def subprocess_run_def raise_def
      return_def decode_utf8_def execution_error_def split: prod.splits sum.splits)

lemma restored_cwd:
  assumes "os_path_isabs home"
    and "returned_or_execution_error (fst (restored home rw)) \<or> os_path_isdir home (snd (restored home rw))"
  shows "cwd (snd (restored home rw)) = home"
proof (cases rw)
  case (Pair rb w1)
  show ?thesis
  proof (cases "os_path_isdir home w1")
    case True
    then show ?thesis using assms(1) Pair
      by (simp add: restored_def os_path_abspath_def os_path_join_abs)
  next
    case False
    then have "restored home rw = (Inl (OSError home), w1)" using Pair by (simp add: restored_def)
    then show ?thesis using assms(2) False by (simp add: returned_or_execution_error_def)
  qed
qed

lemma cmd_restores_cwd:
  assumes "os_path_isabs (cwd w)"
  shows "returned_or_execution_error (fst (cmd sh s path verbose w))
            \<or> os_path_isdir (cwd w) (snd (cmd sh s path verbose w))
          \<Longrightarrow> cwd (snd (cmd sh s path verbose w)) = cwd w"
  unfolding cmd_unfold by (erule restored_cwd [OF assms])

lemma restored_trace: "trace (snd (restored home rw)) = trace (snd rw)"
  by (cases rw) (simp add: restored_def)


lemma cmd_no_removed:
  "\<exists>ev. trace (snd (cmd sh s path verbose w)) = trace w @ ev \<and> (\<forall>t. Removed t \<notin> set ev)"
proof (cases "handle_path s path verbose w")
  case (Pair r w1)
  have h: "\<exists>ev. trace w1 = trace w @ ev \<and> (\<forall>t. Removed t \<notin> set ev)"
    using Pair by (cases path) (auto simp: handle_path_None handle_path_Some split: if_splits)
  show ?thesis
  proof (cases r)
    case (Inl e)
    then show ?thesis using Pair h by (simp add: cmd_unfold restored_trace)
  next
    case (Inr u)
    obtain st out f where "sh s (cwd w1) (files w1) = (st, out, f)" by (metis prod_cases3)
    then have "trace (snd (cmd sh s path verbose w)) = trace w1 @ [System s (cwd w1)]"
      using Pair Inr by (simp add: cmd_unfold restored_trace)
    then show ?thesis using h by auto
  qed
qed



lemma assembled_world: "snd (assembled w) = w"
  by (auto simp: assembled_def and_then_def os_listdir_def split: option.splits node.splits)

lemma packages_world:
  assumes "packages a w = (r, w0)"
  shows "cwd w0 = cwd w \<and> files w0 = files w
       \<and> (\<exists>ev. trace w0 = trace w @ ev \<and> (\<forall>t. Removed t \<notin> set ev))"
proof (cases "assembled w")
  case (Pair rv w1)
  then have w1: "w1 = w" using assembled_world [of w] by simp
  show ?thesis
  proof (cases rv)
    case (Inl e)
    then show ?thesis using assms Pair w1 by (simp add: packages_def and_then_def)
  next
    case (Inr v)
    then show ?thesis using assms Pair w1
      by (auto simp: packages_def and_then_def py_print_def return_def Let_def)
  qed
qed

subsection \<open>Facts about \<open>thread_map\<close> and \<open>packages\<close>\<close>

lemma list_comp_acc:
  "list_comp f xs acc w =
     (case list_comp f xs [] w of (Inl e, w1) \<Rightarrow> (Inl e, w1) | (Inr ys, w1) \<Rightarrow> (Inr (acc @ ys), w1))"
proof (induction xs arbitrary: acc w)
  case Nil
  then show ?case by simp
next
  case (Cons x xs)
  show ?case
  proof (cases "f x w")
    case (Pair r w1)
    show ?thesis
    proof (cases r)
      case (Inl e)
      then show ?thesis using Pair by simp
    next
      case (Inr y)
      have "list_comp f (x # xs) acc w = list_comp f xs (acc @ [y]) w1" using Pair Inr by simp
      also have "\<dots> = (case list_comp f xs [] w1 of (Inl e, w2) \<Rightarrow> (Inl e, w2)
                        | (Inr ys, w2) \<Rightarrow> (Inr ((acc @ [y]) @ ys), w2))"
        by (rule Cons.IH)
      finally have l: "list_comp f (x # xs) acc w = (case list_comp f xs [] w1 of (Inl e, w2) \<Rightarrow> (Inl e, w2)
                        | (Inr ys, w2) \<Rightarrow> (Inr ((acc @ [y]) @ ys), w2))" .
      have "list_comp f (x # xs) [] w = list_comp f xs [y] w1" using Pair Inr by simp
      also have "\<dots> = (case list_comp f xs [] w1 of (Inl e, w2) \<Rightarrow> (Inl e, w2)
                        | (Inr ys, w2) \<Rightarrow> (Inr ([y] @ ys), w2))"
        by (rule Cons.IH)
      finally show ?thesis using l by (auto split: prod.splits sum.splits)
    qed
  qed
qed

lemma str_in_Nil: "str_in [] s"
  by (cases s) auto

lemma spec_selected_empty_filter: "spec_selected [] p"
  by (auto simp: spec_selected_def spec_terms_iff)

lemma discover_extends:
  "\<exists>extra. discover w v xs = v @ extra \<and> distinct extra \<and> set extra \<inter> set v = {}
     \<and> set extra \<subseteq> {os_path_join ''packages'' x | x. x \<in> set xs \<and> os_path_isdir (os_path_join ''packages'' x) w}"
proof (induction xs arbitrary: v)
  case Nil
  then show ?case by simp
next
  case (Cons x xs)
  let ?path = "os_path_join ''packages'' x"
  show ?case
  proof (cases "?path \<notin> set v \<and> os_path_isdir ?path w")
    case True
    from Cons.IH [of "v @ [?path]"] obtain extra where
      e: "discover w (v @ [?path]) xs = (v @ [?path]) @ extra" "distinct extra"
         "set extra \<inter> set (v @ [?path]) = {}"
         "set extra \<subseteq> {os_path_join ''packages'' x | x. x \<in> set xs \<and> os_path_isdir (os_path_join ''packages'' x) w}"
      by blast
    have "discover w v (x # xs) = v @ (?path # extra)" using True e(1) by simp
    moreover have "distinct (?path # extra)" using e(2,3) by auto
    moreover have "set (?path # extra) \<inter> set v = {}" using e(3) True by auto
    moreover have "set (?path # extra) \<subseteq> {os_path_join ''packages'' y | y. y \<in> set (x # xs) \<and> os_path_isdir (os_path_join ''packages'' y) w}"
      using e(4) True by auto
    ultimately show ?thesis by blast
  next
    case False
    from Cons.IH [of v] obtain extra where
      e: "discover w v xs = v @ extra" "distinct extra" "set extra \<inter> set v = {}"
         "set extra \<subseteq> {os_path_join ''packages'' x | x. x \<in> set xs \<and> os_path_isdir (os_path_join ''packages'' x) w}"
      by blast
    have "discover w v (x # xs) = v @ extra" using False e(1) by auto
    moreover have "set extra \<subseteq> {os_path_join ''packages'' y | y. y \<in> set (x # xs) \<and> os_path_isdir (os_path_join ''packages'' y) w}"
      using e(4) by auto
    ultimately show ?thesis using e(2,3) by blast
  qed
qed

lemma assembled_cases:
  "assembled w = (r, w1) \<Longrightarrow> w1 = w \<and>
     (case r of Inl e \<Rightarrow> True
      | Inr v \<Rightarrow> \<exists>names. os_listdir ''packages'' w = (Inr names, w) \<and> v = discover w seed_packages names)"
  by (auto simp: assembled_def and_then_def os_listdir_def split: option.splits node.splits sum.splits)

lemma packages_result:
  "assembled w = (Inr v, w1) \<Longrightarrow>
     packages a w = (Inr (filter (\<lambda>x. matches x (args_packages a)) v),
                     w1\<lparr>trace := trace w1 @ [Print (''Packages:  '' @ str_join '', '' (filter (\<lambda>x. matches x (args_packages a)) v))]\<rparr>)"
  by (simp add: packages_def and_then_def py_print_def return_def Let_def)

lemma packages_error:
  "assembled w = (Inl e, w1) \<Longrightarrow> packages a w = (Inl e, w1)"
  by (simp add: packages_def and_then_def)


lemma packages_members:
  assumes "packages a w = (Inr ps, w0)" and "p \<in> set ps"
  shows "p \<in> set seed_packages
       \<or> (\<exists>names x. os_listdir ''packages'' w = (Inr names, w) \<and> x \<in> set names
             \<and> p = os_path_join ''packages'' x)"
proof -
  obtain r w1 where as: "assembled w = (r, w1)" by (cases "assembled w") auto
  show ?thesis
  proof (cases r)
    case (Inl e)
    then show ?thesis using packages_error [of w e w1 a] as assms by simp
  next
    case (Inr v)
    then obtain names where n: "os_listdir ''packages'' w = (Inr names, w)"
      and v: "v = discover w seed_packages names"
      using assembled_cases [OF as] by auto
    obtain extra where e: "v = seed_packages @ extra"
      "set extra \<subseteq> {os_path_join ''packages'' x | x. x \<in> set names
                        \<and> os_path_isdir (os_path_join ''packages'' x) w}"
      using discover_extends [of w seed_packages names] v by blast
    have "ps = filter (\<lambda>x. matches x (args_packages a)) v"
      using packages_result [of w v w1 a] as Inr assms(1) by simp
    then have "p \<in> set seed_packages \<or> p \<in> set extra" using assms(2) e(1) by auto
    then show ?thesis using e(2) n by auto
  qed
qed

subsection \<open>Facts about the handlers\<close>

lemma build_package_unfold:
  "build_package sh path w =
     (if path \<noteq> ''packages/static'' \<and> os_path_exists (os_path_join path ''dist'') w
      then (if os_path_isdir (os_path_join path ''dist'') w
            then cmd sh ''time npm run build'' (Some path) True
                   (w\<lparr>files := remove_tree (os_path_abspath (os_path_join path ''dist'') w) (files w),
                      trace := trace w @ [Removed (os_path_abspath (os_path_join path ''dist'') w)]\<rparr>)
            else (Inl (OSError (os_path_join path ''dist'')), w))
      else cmd sh ''time npm run build'' (Some path) True w)"
  by (simp add: build_package_def and_then_def return_def shutil_rmtree_def Let_def)

lemma build_package_trace:
  assumes "os_path_isabs (cwd w)" and "build_package sh p w = (r, w')"
  shows "(\<exists>ev. trace w' = trace w @ ev
            \<and> (\<forall>t. Removed t \<in> set ev \<longrightarrow>
                  p \<noteq> ''packages/static'' \<and> t = os_path_join (cwd w) (os_path_join p ''dist'')))
       \<and> (r = Inr () \<longrightarrow> cwd w' = cwd w)"
proof -
  let ?dist = "os_path_join p ''dist''"
  let ?w1 = "w\<lparr>files := remove_tree (os_path_abspath ?dist w) (files w),
               trace := trace w @ [Removed (os_path_abspath ?dist w)]\<rparr>"
  consider (del) "p \<noteq> ''packages/static''" "os_path_exists ?dist w" "os_path_isdir ?dist w"
    | (err) "p \<noteq> ''packages/static''" "os_path_exists ?dist w" "\<not> os_path_isdir ?dist w"
    | (keep) "\<not> (p \<noteq> ''packages/static'' \<and> os_path_exists ?dist w)"
    by blast
  then show ?thesis
  proof cases
    case del
    then have c: "cmd sh ''time npm run build'' (Some p) True ?w1 = (r, w')"
      using assms(2) by (simp add: build_package_unfold)
    obtain ev where ev: "trace w' = trace ?w1 @ ev" "\<forall>t. Removed t \<notin> set ev"
      using cmd_no_removed [of sh "''time npm run build''" "Some p" True ?w1] c by auto
    have "trace w' = trace w @ (Removed (os_path_abspath ?dist w) # ev)" using ev(1) by simp
    moreover have "\<forall>t. Removed t \<in> set (Removed (os_path_abspath ?dist w) # ev) \<longrightarrow>
        p \<noteq> ''packages/static'' \<and> t = os_path_join (cwd w) ?dist"
      using ev(2) del(1) by (auto simp: os_path_abspath_def)
    moreover have "r = Inr () \<longrightarrow> cwd w' = cwd w"
      using cmd_restores_cwd [of ?w1 sh "''time npm run build''" "Some p" True] assms(1) c
      by (auto simp: returned_or_execution_error_def)
    ultimately show ?thesis by blast
  next
    case err
    then show ?thesis using assms(2) by (simp add: build_package_unfold)
  next
    case keep
    then have c: "cmd sh ''time npm run build'' (Some p) True w = (r, w')"
      using assms(2) by (auto simp: build_package_unfold)
    obtain ev where ev: "trace w' = trace w @ ev" "\<forall>t. Removed t \<notin> set ev"
      using cmd_no_removed [of sh "''time npm run build''" "Some p" True w] c by auto
    moreover have "r = Inr () \<longrightarrow> cwd w' = cwd w"
      using cmd_restores_cwd [of w sh "''time npm run build''" "Some p" True] assms(1) c
      by (auto simp: returned_or_execution_error_def)
    ultimately show ?thesis by blast
  qed
qed

lemma build_loop_trace:
  assumes "os_path_isabs (cwd w)" and "for_each (build_package sh) v w = (r, w')"
  shows "\<exists>ev. trace w' = trace w @ ev
            \<and> (\<forall>t. Removed t \<in> set ev \<longrightarrow>
                  (\<exists>p \<in> set v. p \<noteq> ''packages/static''
                      \<and> t = os_path_join (cwd w) (os_path_join p ''dist'')))"
  using assms
proof (induction v arbitrary: w)
  case Nil
  then show ?case by simp
next
  case (Cons p v)
  obtain r1 w1 where b: "build_package sh p w = (r1, w1)" by (cases "build_package sh p w") auto
  obtain ev1 where ev1: "trace w1 = trace w @ ev1"
    "\<forall>t. Removed t \<in> set ev1 \<longrightarrow> p \<noteq> ''packages/static'' \<and> t = os_path_join (cwd w) (os_path_join p ''dist'')"
    and c: "r1 = Inr () \<longrightarrow> cwd w1 = cwd w"
    using build_package_trace [OF Cons.prems(1) b] by blast
  show ?case
  proof (cases r1)
    case (Inl e)
    then have "w' = w1" using Cons.prems(2) b by simp
    then show ?thesis using ev1 by auto
  next
    case (Inr u)
    then have l: "for_each (build_package sh) v w1 = (r, w')" and cw: "cwd w1 = cwd w"
      using Cons.prems(2) b c by auto
    obtain ev2 where ev2: "trace w' = trace w1 @ ev2"
      "\<forall>t. Removed t \<in> set ev2 \<longrightarrow>
         (\<exists>q \<in> set v. q \<noteq> ''packages/static'' \<and> t = os_path_join (cwd w1) (os_path_join q ''dist''))"
      using Cons.IH [OF _ l] cw Cons.prems(1) by auto
    have "trace w' = trace w @ (ev1 @ ev2)" using ev1(1) ev2(1) by simp
    moreover have "\<forall>t. Removed t \<in> set (ev1 @ ev2) \<longrightarrow>
         (\<exists>q \<in> set (p # v). q \<noteq> ''packages/static'' \<and> t = os_path_join (cwd w) (os_path_join q ''dist''))"
      using ev1(2) ev2(2) cw by auto
    ultimately show ?thesis by blast
  qed
qed


lemma suffix_slash: "suffix ''/'' p \<longleftrightarrow> p \<noteq> [] \<and> last p = CHR ''/''"
proof (cases p rule: rev_cases)
  case Nil
  then show ?thesis by simp
next
  case (snoc ys y)
  then show ?thesis by (auto simp: suffix_def)
qed

lemma join_relative_inj:
  "\<not> prefix ''/'' q1 \<Longrightarrow> \<not> prefix ''/'' q2 \<Longrightarrow> os_path_join c q1 = os_path_join c q2 \<Longrightarrow> q1 = q2"
  by (auto simp: os_path_join_def split: if_splits)

lemma join_dist: "plain_relative p \<Longrightarrow> os_path_join p ''dist'' = p @ ''/dist''"
  by (simp add: os_path_join_def plain_relative_def)

lemma static_dist_only:
  assumes "plain_relative p"
    and "os_path_join c (os_path_join p ''dist'') = os_path_join c ''packages/static/dist''"
  shows "p = ''packages/static''"
proof -
  have "\<not> prefix ''/'' (p @ ''/dist'')"
    using assms(1) by (cases p) (auto simp: plain_relative_def)
  moreover have "\<not> prefix ''/'' ''packages/static/dist''" by simp
  ultimately have "p @ ''/dist'' = ''packages/static/dist''"
    using assms join_relative_inj [of "p @ ''/dist''" "''packages/static/dist''" c]
    by (simp add: join_dist)
  then have "p @ ''/dist'' = ''packages/static'' @ ''/dist''" by simp
  then show ?thesis by (simp only: append_same_eq)
qed

lemma seed_plain_relative: "p \<in> set seed_packages \<Longrightarrow> plain_relative p"
  by (auto simp: seed_packages_def plain_relative_def suffix_slash)

lemma discovered_plain_relative:
  assumes "x \<noteq> []" "CHR ''/'' \<notin> set x"
  shows "plain_relative (os_path_join ''packages'' x)"
proof -
  have "\<not> prefix ''/'' x" using assms by (cases x) auto
  then have j: "os_path_join ''packages'' x = ''packages/'' @ x"
    by (simp add: os_path_join_def suffix_slash)
  have "last (''packages/'' @ x) = last x" using assms(1) by simp
  then have "last (''packages/'' @ x) \<noteq> CHR ''/''" using assms by (metis last_in_set)
  then show ?thesis unfolding j plain_relative_def suffix_slash by simp
qed

lemma selected_plain_relative:
  assumes "valid_names w" and "packages a w = (Inr ps, w0)" and "p \<in> set ps"
  shows "plain_relative p"
proof -
  from packages_members [OF assms(2,3)] show ?thesis
  proof
    assume "p \<in> set seed_packages"
    then show ?thesis by (rule seed_plain_relative)
  next
    assume "\<exists>names x. os_listdir ''packages'' w = (Inr names, w) \<and> x \<in> set names
             \<and> p = os_path_join ''packages'' x"
    then obtain names x where n: "os_listdir ''packages'' w = (Inr names, w)"
      and x: "x \<in> set names" "p = os_path_join ''packages'' x" by blast
    have "\<forall>x \<in> set names. x \<noteq> [] \<and> CHR ''/'' \<notin> set x"
      using assms(1) n by (simp add: valid_names_def list_all_iff)
    then show ?thesis using x discovered_plain_relative by simp
  qed
qed

lemma final_segment_after_slash: "spec_final_segment (x @ ''/'' @ b) = spec_final_segment b"
proof -
  have t0: "rev (x @ ''/'' @ b) = rev b @ CHR ''/'' # rev x" by simp
  have "takeWhile (\<lambda>c. c \<noteq> CHR ''/'') (rev b @ CHR ''/'' # rev x)
           = takeWhile (\<lambda>c. c \<noteq> CHR ''/'') (rev b)"
  proof (cases "CHR ''/'' \<in> set b")
    case True
    then show ?thesis
      using takeWhile_append1 [of "CHR ''/''" "rev b" "\<lambda>c. c \<noteq> CHR ''/''"] by simp
  next
    case False
    then have all: "\<And>c. c \<in> set (rev b) \<Longrightarrow> c \<noteq> CHR ''/''" by auto
    have tw: "takeWhile (\<lambda>c. c \<noteq> CHR ''/'') (rev b) = rev b"
      using all by simp
    have "takeWhile (\<lambda>c. c \<noteq> CHR ''/'') (rev b @ CHR ''/'' # rev x)
            = rev b @ takeWhile (\<lambda>c. c \<noteq> CHR ''/'') (CHR ''/'' # rev x)"
      using all by (rule takeWhile_append2)
    also have "\<dots> = rev b" by simp
    also have "\<dots> = takeWhile (\<lambda>c. c \<noteq> CHR ''/'') (rev b)"
      by (rule tw [symmetric])
    finally show ?thesis .
  qed
  then show ?thesis unfolding spec_final_segment_def t0 by (rule arg_cong)
qed

lemma final_segment_join: "spec_final_segment (os_path_join a b) = spec_final_segment b"
proof -
  consider (abs) "prefix ''/'' b" | (empty) "\<not> prefix ''/'' b" "a = []"
    | (slash) "\<not> prefix ''/'' b" "a \<noteq> []" "suffix ''/'' a"
    | (plain) "\<not> prefix ''/'' b" "a \<noteq> []" "\<not> suffix ''/'' a" by blast
  then show ?thesis
  proof cases
    case abs
    then show ?thesis by (simp add: os_path_join_def)
  next
    case empty
    then show ?thesis by (simp add: os_path_join_def)
  next
    case slash
    then obtain x where "a = x @ ''/''" by (auto simp: suffix_def)
    then show ?thesis using slash final_segment_after_slash [of x b]
      by (simp add: os_path_join_def)
  next
    case plain
    then show ?thesis using final_segment_after_slash [of a b]
      by (simp add: os_path_join_def)
  qed
qed

lemma clean_paths_single:
  "clean_paths w v [x] =
     map (\<lambda>p. os_path_abspath (os_path_join p x) w)
       (filter (\<lambda>p. os_path_exists (os_path_abspath (os_path_join p x) w) w) v)"
proof -
  have "foldl (\<lambda>paths path.
          (let y = os_path_abspath (os_path_join path x) w
           in if os_path_exists y w then paths @ [y] else paths)) acc v
        = acc @ map (\<lambda>p. os_path_abspath (os_path_join p x) w)
            (filter (\<lambda>p. os_path_exists (os_path_abspath (os_path_join p x) w) w) v)" for acc
    by (induction v arbitrary: acc) (simp_all add: Let_def)
  then show ?thesis by (simp add: clean_paths_def)
qed

lemma join_assoc_dist:
  assumes "plain_relative p"
  shows "os_path_join (os_path_join c p) ''dist'' = os_path_join c (os_path_join p ''dist'')"
proof -
  have p: "p \<noteq> []" "\<not> prefix ''/'' p" "last p \<noteq> CHR ''/''"
    using assms by (auto simp: plain_relative_def suffix_slash)
  have np: "\<not> prefix ''/'' (p @ ''/dist'')" using p by (cases p) auto
  have l1: "last (c @ p) \<noteq> CHR ''/''" "last (c @ ''/'' @ p) \<noteq> CHR ''/''" using p by simp_all
  have "os_path_join c p = (if c = [] \<or> suffix ''/'' c then c @ p else c @ ''/'' @ p)"
    using p by (simp add: os_path_join_def)
  moreover have "os_path_join (c @ p) ''dist'' = (c @ p) @ ''/dist''"
    using p l1 by (simp add: os_path_join_def suffix_slash)
  moreover have "os_path_join (c @ ''/'' @ p) ''dist'' = (c @ ''/'' @ p) @ ''/dist''"
    using p l1 by (simp add: os_path_join_def suffix_slash)
  moreover have "os_path_join c (p @ ''/dist'')
      = (if c = [] \<or> suffix ''/'' c then c @ p @ ''/dist'' else c @ ''/'' @ p @ ''/dist'')"
    using np by (simp add: os_path_join_def)
  ultimately show ?thesis using assms by (simp add: join_dist)
qed

lemma cmd_shell_agree:
  assumes "sh s (os_path_abspath p w) (files w) = sh' s (os_path_abspath p w) (files w)"
  shows "cmd sh s (Some p) True w = cmd sh' s (Some p) True w"
  using assms by (simp add: cmd_unfold handle_path_Some)

lemma build_package_agree:
  assumes "plain_relative p"
    and "\<forall>s d f. d = os_path_join (cwd w) ''packages/static'' \<or> f (os_path_join d ''dist'') = None
           \<longrightarrow> sh s d f = sh' s d f"
  shows "build_package sh p w = build_package sh' p w"
proof -
  let ?dist = "os_path_join p ''dist''"
  let ?t = "os_path_abspath ?dist w"
  let ?w1 = "w\<lparr>files := remove_tree ?t (files w), trace := trace w @ [Removed ?t]\<rparr>"
  have t: "os_path_join (os_path_abspath p w) ''dist'' = ?t"
    using join_assoc_dist [OF assms(1), of "cwd w"] by (simp add: os_path_abspath_def)
  consider (del) "p \<noteq> ''packages/static''" "os_path_exists ?dist w" "os_path_isdir ?dist w"
    | (err) "p \<noteq> ''packages/static''" "os_path_exists ?dist w" "\<not> os_path_isdir ?dist w"
    | (absent) "p \<noteq> ''packages/static''" "\<not> os_path_exists ?dist w"
    | (static) "p = ''packages/static''"
    by blast
  then show ?thesis
  proof cases
    case del
    have "files ?w1 (os_path_join (os_path_abspath p ?w1) ''dist'') = None"
      using t by (simp add: os_path_abspath_def remove_tree_def)
    then have "sh ''time npm run build'' (os_path_abspath p ?w1) (files ?w1)
             = sh' ''time npm run build'' (os_path_abspath p ?w1) (files ?w1)"
      using assms(2) by blast
    then have "cmd sh ''time npm run build'' (Some p) True ?w1
             = cmd sh' ''time npm run build'' (Some p) True ?w1"
      by (rule cmd_shell_agree)
    then show ?thesis using del by (simp add: build_package_unfold)
  next
    case err
    then show ?thesis by (simp add: build_package_unfold)
  next
    case absent
    then have "files w (os_path_join (os_path_abspath p w) ''dist'') = None"
      using t by (simp add: os_path_exists_def)
    then have "sh ''time npm run build'' (os_path_abspath p w) (files w)
             = sh' ''time npm run build'' (os_path_abspath p w) (files w)"
      using assms(2) by blast
    then have "cmd sh ''time npm run build'' (Some p) True w
             = cmd sh' ''time npm run build'' (Some p) True w"
      by (rule cmd_shell_agree)
    then show ?thesis using absent by (simp add: build_package_unfold)
  next
    case static
    have "sh ''time npm run build'' (os_path_abspath p w) (files w)
             = sh' ''time npm run build'' (os_path_abspath p w) (files w)"
      using assms(2) static by (simp add: os_path_abspath_def)
    then have "cmd sh ''time npm run build'' (Some p) True w
             = cmd sh' ''time npm run build'' (Some p) True w"
      by (rule cmd_shell_agree)
    then show ?thesis using static by (simp add: build_package_unfold)
  qed
qed

lemma build_loop_agree:
  assumes "os_path_isabs (cwd w)"
    and "\<forall>p \<in> set ps. plain_relative p"
    and "\<forall>s d f. d = os_path_join (cwd w) ''packages/static'' \<or> f (os_path_join d ''dist'') = None
           \<longrightarrow> sh s d f = sh' s d f"
  shows "for_each (build_package sh) ps w = for_each (build_package sh') ps w"
  using assms
proof (induction ps arbitrary: w)
  case Nil
  then show ?case by simp
next
  case (Cons p ps)
  have e: "build_package sh p w = build_package sh' p w"
    using build_package_agree [of p w sh sh'] Cons.prems(2,3) by simp
  obtain r1 w1 where b: "build_package sh p w = (r1, w1)" by (cases "build_package sh p w") auto
  show ?case
  proof (cases r1)
    case (Inl x)
    then show ?thesis using b e by simp
  next
    case (Inr u)
    then have c: "cwd w1 = cwd w" using build_package_trace [OF Cons.prems(1) b] by simp
    have "for_each (build_package sh) ps w1 = for_each (build_package sh') ps w1"
      using Cons.IH [of w1] Cons.prems c by simp
    then show ?thesis using b e Inr by simp
  qed
qed

lemma build_agree:
  assumes "os_path_isabs (cwd w)" "valid_names w"
    and "\<forall>s d f. d = os_path_join (cwd w) ''packages/static'' \<or> f (os_path_join d ''dist'') = None
           \<longrightarrow> sh s d f = sh' s d f"
  shows "build sh a w = build sh' a w"
proof -
  obtain r0 w0 where pk: "packages a w = (r0, w0)" by (cases "packages a w") auto
  show ?thesis
  proof (cases r0)
    case (Inl e)
    then show ?thesis using pk by (simp add: build_def and_then_def)
  next
    case (Inr ps)
    have c: "cwd w0 = cwd w" using packages_world [OF pk] by simp
    have "\<forall>p \<in> set ps. plain_relative p"
      using selected_plain_relative [OF assms(2), of a ps w0] pk Inr by simp
    then have "for_each (build_package sh) ps w0 = for_each (build_package sh') ps w0"
      using build_loop_agree [of w0 ps sh sh'] assms(1,3) c by simp
    then show ?thesis using pk Inr by (simp add: build_def and_then_def)
  qed
qed

lemma packages_args: "args_packages a = args_packages b \<Longrightarrow> packages a = packages b"
  by (simp add: packages_def)

section \<open>The claims\<close>

subsection \<open>Package selection\<close>

text \<open>
  Claim C1. Whatever the filter string, \<open>packages\<close> returns exactly those entries of the
  assembled list (the seed paths followed by the discovered directories) whose final path
  segment contains, as a case-sensitive substring, at least one of the terms obtained by
  splitting the filter on commas; with the empty filter it returns the whole assembled list.
\<close>

theorem packages_selects_by_filter:
  assumes "assembled w = (Inr v, w1)"
  shows "fst (packages a w) = Inr (filter (spec_selected (args_packages a)) v)
         \<and> (args_packages a = [] \<longrightarrow> fst (packages a w) = Inr v)"
proof -
  have "filter (\<lambda>x. matches x (args_packages a)) v = filter (spec_selected (args_packages a)) v"
    by (rule filter_cong) (auto simp: matches_iff_spec spec_selected_empty_filter)
  moreover have "args_packages a = [] \<Longrightarrow> filter (spec_selected (args_packages a)) v = v"
    by (simp add: spec_selected_empty_filter)
  ultimately show ?thesis using packages_result [OF assms, of a] by simp
qed

theorem packages_selects_by_filter_witness:
  "assembled example_world = (Inr example_assembled, example_world)
   \<and> fst (packages (example_args ''hub'') example_world)
       = Inr (filter (spec_selected ''hub'') example_assembled)
   \<and> fst (packages (example_args ''hub'') example_world) = Inr [''smc-hub'']
   \<and> fst (packages (example_args []) example_world) = Inr example_assembled"
proof -
  have "fst (assembled example_world) = Inr example_assembled" by code_simp
  then have h: "assembled example_world = (Inr example_assembled, example_world)"
    using assembled_world [of example_world] by (simp add: prod_eq_iff)
  have e: "fst (packages (example_args ''hub'') example_world) = Inr [''smc-hub'']"
    by code_simp
  have t1: "fst (packages (example_args ''hub'') example_world)
              = Inr (filter (spec_selected ''hub'') example_assembled)"
    using packages_selects_by_filter [OF h, of "example_args ''hub''"]
    by (simp add: example_args_def)
  have "args_packages (example_args []) = []" by (simp add: example_args_def)
  then have t2: "fst (packages (example_args []) example_world) = Inr example_assembled"
    using packages_selects_by_filter [OF h, of "example_args []"] by blast
  show ?thesis by (intro conjI h t1 e t2)
qed

text \<open>
  Claim C2. Whatever \<open>os.listdir\<close> enumerates under \<open>packages\<close>, the list that \<open>packages\<close>
  returns starts with the seed paths that pass the filter, in their fixed order; what
  follows are discovered subdirectories of \<open>packages\<close>, none of them a seed path; and no
  path occurs twice.
\<close>

theorem packages_seed_first_no_duplicates:
  assumes "packages a w = (Inr p, w')"
  shows "\<exists>names extra.
           os_listdir ''packages'' w = (Inr names, w)
         \<and> p = filter (\<lambda>x. matches x (args_packages a)) seed_packages @ extra
         \<and> set extra \<subseteq> {os_path_join ''packages'' x | x. x \<in> set names} - set seed_packages
         \<and> distinct p"
proof -
  obtain r w1 where as: "assembled w = (r, w1)" by (cases "assembled w") auto
  show ?thesis
  proof (cases r)
    case (Inl e)
    then show ?thesis using packages_error [of w e w1 a] as assms by simp
  next
    case (Inr v)
    then obtain names where n: "os_listdir ''packages'' w = (Inr names, w)"
      and v: "v = discover w seed_packages names"
      using assembled_cases [OF as] by auto
    obtain extra where e: "v = seed_packages @ extra" "distinct extra"
      "set extra \<inter> set seed_packages = {}"
      "set extra \<subseteq> {os_path_join ''packages'' x | x. x \<in> set names
                        \<and> os_path_isdir (os_path_join ''packages'' x) w}"
      using discover_extends [of w seed_packages names] v by blast
    let ?m = "\<lambda>x. matches x (args_packages a)"
    have p: "p = filter ?m seed_packages @ filter ?m extra"
      using packages_result [of w v w1 a] as Inr assms e(1) by simp
    have "distinct seed_packages" by (simp add: seed_packages_def)
    then have "distinct v" using e by auto
    then have "distinct p" using p e(1) by (metis distinct_filter filter_append)
    moreover have "set (filter ?m extra)
        \<subseteq> {os_path_join ''packages'' x | x. x \<in> set names} - set seed_packages"
      using e(3,4) by auto
    ultimately show ?thesis using n p by blast
  qed
qed

theorem packages_seed_first_no_duplicates_witness:
  "fst (packages (example_args ''smc,extra'') example_world)
     = Inr [''smc-util'', ''smc-hub'', ''smc-webapp'', ''packages/extra'']
   \<and> (\<exists>names extra.
         os_listdir ''packages'' example_world = (Inr names, example_world)
       \<and> [''smc-util'', ''smc-hub'', ''smc-webapp'', ''packages/extra'']
           = filter (\<lambda>x. matches x ''smc,extra'') seed_packages @ extra
       \<and> set extra \<subseteq> {os_path_join ''packages'' x | x. x \<in> set names} - set seed_packages
       \<and> distinct [''smc-util'', ''smc-hub'', ''smc-webapp'', ''packages/extra''])"
proof -
  let ?a = "example_args ''smc,extra''"
  have f: "fst (packages ?a example_world)
             = Inr [''smc-util'', ''smc-hub'', ''smc-webapp'', ''packages/extra'']"
    by code_simp
  then have h: "packages ?a example_world
      = (Inr [''smc-util'', ''smc-hub'', ''smc-webapp'', ''packages/extra''],
         snd (packages ?a example_world))"
    by (simp add: prod_eq_iff)
  have "args_packages ?a = ''smc,extra''" by (simp add: example_args_def)
  then show ?thesis
    using f packages_seed_first_no_duplicates [OF h] by simp
qed

text \<open>
  Claim C9. A filter with an empty term (a trailing comma as in \<open>foo,\<close>, or the string
  \<open>,\<close>) makes \<open>matches\<close> true for every package path: the empty string is a substring
  of every final path segment.
\<close>

theorem empty_term_matches_everything:
  assumes "[] \<in> set (str_split CHR '','' f)"
  shows "matches package f"
  using assms str_in_Nil by (auto simp: matches_def matches_loop_iff)

theorem empty_term_matches_everything_witness:
  "[] \<in> set (str_split CHR '','' ''foo,'') \<and> matches ''packages/cdn'' ''foo,''
   \<and> [] \<in> set (str_split CHR '','' '','') \<and> matches ''smc-hub'' '',''"
proof -
  have a: "[] \<in> set (str_split CHR '','' ''foo,'')" by simp
  have b: "[] \<in> set (str_split CHR '','' '','')" by simp
  show ?thesis
    using a b empty_term_matches_everything [OF a, of "''packages/cdn''"]
      empty_term_matches_everything [OF b, of "''smc-hub''"]
    by simp
qed

subsection \<open>Running a command\<close>




text \<open>
  Claim C4, as amended. Take a command \<open>s\<close> that is actually run (the change into
  \<open>path\<close>, if any, succeeded), with exit status \<open>st\<close> and output \<open>out\<close>, and let the
  original working directory still exist afterwards. Then \<open>cmd\<close> raises the generic
  execution error if \<open>st\<close> is nonzero and returns nothing if it is zero. When \<open>out\<close> is
  valid UTF-8, \<open>run\<close> raises the generic execution error if \<open>st\<close> is nonzero and returns
  the decoded output if it is zero; when \<open>st\<close> is zero and \<open>out\<close> is not valid UTF-8,
  \<open>run\<close> raises the decoding error. The message of the execution error is
  \<open>Error executing '\<close>\<open>s\<close>\<open>'\<close> and so contains \<open>s\<close>.
\<close>

theorem cmd_run_execution_error:
  assumes "handle_path s path verbose w = (Inr (), w1)"
    and "sh s (cwd w1) (files w1) = (st, out, f)"
    and "os_path_isdir (cwd w) (w1\<lparr>files := f\<rparr>)"
  shows "fst (cmd sh s path verbose w) = (if st \<noteq> 0 then Inl (execution_error s) else Inr ())
       \<and> (utf8_ok (map of_char out) \<longrightarrow>
            fst (run sh s path verbose w) = (if st \<noteq> 0 then Inl (execution_error s) else Inr out))
       \<and> (st = 0 \<and> \<not> utf8_ok (map of_char out) \<longrightarrow>
            fst (run sh s path verbose w) = Inl UnicodeDecodeError)
       \<and> execution_error s = RuntimeError (''Error executing '' @ quoted s)
       \<and> sublist s (''Error executing '' @ quoted s)"
proof -
  have d: "os_path_isdir (cwd w) (w1\<lparr>files := f, trace := t\<rparr>)" for t
    using assms(3) by (simp add: os_path_isdir_def os_path_abspath_def)
  have "sublist s (''Error executing '' @ quoted s)"
    unfolding quoted_def sublist_def
    by (rule exI [of _ "''Error executing '' @ [CHR 0x27]"], rule exI [of _ "[CHR 0x27]"]) simp
  then show ?thesis
    using assms(1,2) d
    by (simp add: cmd_unfold run_unfold restored_def execution_error_def)
qed

theorem cmd_run_execution_error_witness:
  "fst (handle_path ''npm ci'' (Some ''smc-webapp'') True example_world) = Inr ()
   \<and> fst (cmd example_shell ''npm ci'' (Some ''smc-webapp'') True example_world)
       = Inl (execution_error ''npm ci'')
   \<and> fst (run example_shell ''npm ci'' (Some ''smc-webapp'') True example_world)
       = Inl (execution_error ''npm ci'')
   \<and> fst (handle_path ''npm ci'' (Some ''smc-util'') True example_world) = Inr ()
   \<and> fst (cmd example_shell ''npm ci'' (Some ''smc-util'') True example_world) = Inr ()
   \<and> fst (run example_shell ''npm ci'' (Some ''smc-util'') True example_world) = Inr ''ok''
   \<and> fst (run (garbage_shell 0) ''cat blob'' (Some ''smc-util'') True example_world)
       = Inl UnicodeDecodeError"
proof -
  let ?w1 = "snd (handle_path ''npm ci'' (Some ''smc-webapp'') True example_world)"
  let ?w2 = "snd (handle_path ''npm ci'' (Some ''smc-util'') True example_world)"
  let ?w3 = "snd (handle_path ''cat blob'' (Some ''smc-util'') True example_world)"
  have h1: "fst (handle_path ''npm ci'' (Some ''smc-webapp'') True example_world) = Inr ()"
    by code_simp
  have h2: "fst (handle_path ''npm ci'' (Some ''smc-util'') True example_world) = Inr ()"
    by code_simp
  have h3: "fst (handle_path ''cat blob'' (Some ''smc-util'') True example_world) = Inr ()"
    by code_simp
  have p1: "handle_path ''npm ci'' (Some ''smc-webapp'') True example_world = (Inr (), ?w1)"
    using h1 by (simp add: prod_eq_iff)
  have p2: "handle_path ''npm ci'' (Some ''smc-util'') True example_world = (Inr (), ?w2)"
    using h2 by (simp add: prod_eq_iff)
  have p3: "handle_path ''cat blob'' (Some ''smc-util'') True example_world = (Inr (), ?w3)"
    using h3 by (simp add: prod_eq_iff)
  have "cwd ?w1 = ''/r/smc-webapp''" by code_simp
  then have s1: "example_shell ''npm ci'' (cwd ?w1) (files ?w1) = (1, ''ok'', files ?w1)"
    by (simp add: example_shell_def)
  have "cwd ?w2 = ''/r/smc-util''" by code_simp
  then have s2: "example_shell ''npm ci'' (cwd ?w2) (files ?w2) = (0, ''ok'', files ?w2)"
    by (simp add: example_shell_def)
  have s3: "garbage_shell 0 ''cat blob'' (cwd ?w3) (files ?w3) = (0, [CHR 0xFF], files ?w3)"
    by (simp add: garbage_shell_def)
  have d1: "os_path_isdir (cwd example_world) (?w1\<lparr>files := files ?w1\<rparr>)" by code_simp
  have d2: "os_path_isdir (cwd example_world) (?w2\<lparr>files := files ?w2\<rparr>)" by code_simp
  have d3: "os_path_isdir (cwd example_world) (?w3\<lparr>files := files ?w3\<rparr>)" by code_simp
  have u: "utf8_ok (map of_char ''ok'')" "\<not> utf8_ok (map of_char [CHR 0xFF])" by code_simp+
  have t1: "fst (cmd example_shell ''npm ci'' (Some ''smc-webapp'') True example_world)
              = Inl (execution_error ''npm ci'')
          \<and> fst (run example_shell ''npm ci'' (Some ''smc-webapp'') True example_world)
              = Inl (execution_error ''npm ci'')"
    using cmd_run_execution_error [where sh = example_shell, OF p1 s1 d1] u by simp
  have t2: "fst (cmd example_shell ''npm ci'' (Some ''smc-util'') True example_world) = Inr ()
          \<and> fst (run example_shell ''npm ci'' (Some ''smc-util'') True example_world) = Inr ''ok''"
    using cmd_run_execution_error [where sh = example_shell, OF p2 s2 d2] u by simp
  have t3: "fst (run (garbage_shell 0) ''cat blob'' (Some ''smc-util'') True example_world)
              = Inl UnicodeDecodeError"
    using cmd_run_execution_error [where sh = "garbage_shell 0", OF p3 s3 d3] u by simp
  show ?thesis using h1 h2 t1 t2 t3 by blast
qed

text \<open>
  The claim as first stated fails: a command that exits with status zero but writes bytes
  that are not UTF-8 makes \<open>run\<close> raise the decoding error instead of returning the decoded
  output.
\<close>

theorem run_zero_status_undecodable:
  "fst (garbage_shell 0 ''cat blob'' (cwd example_world) (files example_world)) = 0
   \<and> fst (run (garbage_shell 0) ''cat blob'' None False example_world) = Inl UnicodeDecodeError"
  by code_simp

text \<open>
  Claim C5 asks that a nonzero exit status makes \<open>run\<close> raise the generic execution error
  whatever the command wrote. The code decodes the output before it looks at the exit
  status: with status 1 and the single byte \<open>0xFF\<close> on standard output, \<open>run\<close> raises the
  decoding error, while \<open>cmd\<close> on the same command raises the execution error.
\<close>

theorem run_failure_masked_by_decoding:
  "fst (garbage_shell 1 ''make'' (cwd example_world) (files example_world)) = 1
   \<and> fst (run (garbage_shell 1) ''make'' None False example_world) = Inl UnicodeDecodeError
   \<and> fst (cmd (garbage_shell 1) ''make'' None False example_world) = Inl (execution_error ''make'')"
  by code_simp

subsection \<open>\<open>thread_map\<close>\<close>

text \<open>
  Claim C6. For every function and every worker count, \<open>thread_map\<close> on the empty list
  returns the empty list and leaves the world as it is: the function is not invoked and no
  worker pool is created. With one worker and a list \<open>x # xs\<close>, the function is invoked on
  \<open>x\<close> first, in the state of the call, then \<open>thread_map\<close> proceeds with \<open>xs\<close> in the
  state that invocation left, and the results come back in input order (an exception stops
  the run at once). In particular a function that logs its argument and returns a value
  yields the values and the log entries in input order.
\<close>

theorem thread_map_empty_and_serial:
  "thread_map pool fn [] n w = (Inr [], w)
   \<and> thread_map pool fn (x # xs) 1 w =
       (case fn x w of
          (Inl e, w1) \<Rightarrow> (Inl e, w1)
        | (Inr y, w1) \<Rightarrow>
            (case thread_map pool fn xs 1 w1 of
               (Inl e, w2) \<Rightarrow> (Inl e, w2)
             | (Inr ys, w2) \<Rightarrow> (Inr (y # ys), w2)))
   \<and> thread_map pool (\<lambda>x w. (Inr (g x), w\<lparr>trace := trace w @ [Print (h x)]\<rparr>)) zs 1 w =
       (Inr (map g zs), w\<lparr>trace := trace w @ map (\<lambda>x. Print (h x)) zs\<rparr>)"
proof (intro conjI)
  show "thread_map pool fn [] n w = (Inr [], w)" by (simp add: thread_map_def)
next
  have tm: "thread_map pool fn zs 1 v = list_comp fn zs [] v" for zs v
    by (cases zs) (simp_all add: thread_map_def)
  show "thread_map pool fn (x # xs) 1 w =
       (case fn x w of
          (Inl e, w1) \<Rightarrow> (Inl e, w1)
        | (Inr y, w1) \<Rightarrow>
            (case thread_map pool fn xs 1 w1 of
               (Inl e, w2) \<Rightarrow> (Inl e, w2)
             | (Inr ys, w2) \<Rightarrow> (Inr (y # ys), w2)))"
    unfolding tm
    using list_comp_acc [of fn xs "[y]" for y]
    by (auto split: prod.splits sum.splits)
next
  let ?f = "\<lambda>x w. (Inr (g x), w\<lparr>trace := trace w @ [Print (h x)]\<rparr>)"
  have tm: "thread_map pool ?f zs 1 v = list_comp ?f zs [] v" for zs v
    by (cases zs) (simp_all add: thread_map_def)
  have "list_comp ?f zs acc v = (Inr (acc @ map g zs), v\<lparr>trace := trace v @ map (\<lambda>x. Print (h x)) zs\<rparr>)"
    for acc v
    by (induction zs arbitrary: acc v) simp_all
  then show "thread_map pool ?f zs 1 w =
       (Inr (map g zs), w\<lparr>trace := trace w @ map (\<lambda>x. Print (h x)) zs\<rparr>)"
    unfolding tm by simp
qed

subsection \<open>The handlers\<close>



text \<open>
  Claim C8. Whatever packages are selected, \<open>build\<close> never removes the \<open>dist\<close> directory
  of the package whose path is literally \<open>packages/static\<close>: for that package the loop
  body is the build command alone, and no removal of \<open>packages/static/dist\<close> is among
  the events \<open>build\<close> adds (directory entries being names, and the working directory an
  absolute path). For every other package whose \<open>dist\<close> is an existing directory, the
  loop body removes it first and runs the build command in the state where it is gone.
  The handler \<open>build\<close> is that loop body run over the selected packages in order; and it
  hands a build command to the shell only in \<open>packages/static\<close> or on a directory tree
  in which the package has no \<open>dist\<close>: two shells that agree on those calls make \<open>build\<close>
  behave the same.
\<close>

theorem build_spares_static_dist:
  "(os_path_isabs (cwd w) \<and> valid_names w \<longrightarrow>
      Removed (os_path_join (cwd w) ''packages/static/dist'')
        \<notin> set (drop (length (trace w)) (trace (snd (build sh a w)))))
   \<and> build_package sh ''packages/static'' w
       = cmd sh ''time npm run build'' (Some ''packages/static'') True w
   \<and> (path \<noteq> ''packages/static'' \<and> os_path_isdir (os_path_join path ''dist'') w \<longrightarrow>
        (let d = os_path_abspath (os_path_join path ''dist'') w;
             w1 = w\<lparr>files := remove_tree d (files w), trace := trace w @ [Removed d]\<rparr>
         in build_package sh path w = cmd sh ''time npm run build'' (Some path) True w1
            \<and> files w1 d = None))
   \<and> (packages a w = (Inr ps, w0) \<longrightarrow> build sh a w = for_each (build_package sh) ps w0)
   \<and> (os_path_isabs (cwd w) \<and> valid_names w
        \<and> (\<forall>s d f. d = os_path_join (cwd w) ''packages/static''
                      \<or> f (os_path_join d ''dist'') = None
                    \<longrightarrow> sh s d f = sh' s d f)
       \<longrightarrow> build sh a w = build sh' a w)"
proof (intro conjI impI)
  show "build_package sh ''packages/static'' w
       = cmd sh ''time npm run build'' (Some ''packages/static'') True w"
    by (simp add: build_package_unfold)
next
  assume "path \<noteq> ''packages/static'' \<and> os_path_isdir (os_path_join path ''dist'') w"
  moreover from this have "os_path_exists (os_path_join path ''dist'') w"
    by (auto simp: os_path_isdir_def os_path_exists_def split: option.splits)
  ultimately show "let d = os_path_abspath (os_path_join path ''dist'') w;
             w1 = w\<lparr>files := remove_tree d (files w), trace := trace w @ [Removed d]\<rparr>
         in build_package sh path w = cmd sh ''time npm run build'' (Some path) True w1
            \<and> files w1 d = None"
    by (simp add: build_package_unfold Let_def remove_tree_def)
next
  assume "packages a w = (Inr ps, w0)"
  then show "build sh a w = for_each (build_package sh) ps w0"
    by (simp add: build_def and_then_def)
next
  assume "os_path_isabs (cwd w) \<and> valid_names w
        \<and> (\<forall>s d f. d = os_path_join (cwd w) ''packages/static''
                      \<or> f (os_path_join d ''dist'') = None
                    \<longrightarrow> sh s d f = sh' s d f)"
  then show "build sh a w = build sh' a w"
    using build_agree [of w sh sh' a] by blast
next
  assume h: "os_path_isabs (cwd w) \<and> valid_names w"
  let ?t = "os_path_join (cwd w) ''packages/static/dist''"
  obtain r0 w0 where pk: "packages a w = (r0, w0)" by (cases "packages a w") auto
  obtain ev0 where w0: "cwd w0 = cwd w" "trace w0 = trace w @ ev0" "\<forall>t. Removed t \<notin> set ev0"
    using packages_world [OF pk] by blast
  show "Removed ?t \<notin> set (drop (length (trace w)) (trace (snd (build sh a w))))"
  proof (cases r0)
    case (Inl e)
    then have "snd (build sh a w) = w0" using pk by (simp add: build_def and_then_def)
    then show ?thesis using w0 by simp
  next
    case (Inr ps)
    obtain r w' where l: "for_each (build_package sh) ps w0 = (r, w')"
      by (cases "for_each (build_package sh) ps w0") auto
    have b: "snd (build sh a w) = w'" using pk Inr l by (simp add: build_def and_then_def)
    have "os_path_isabs (cwd w0)" using h w0(1) by simp
    then obtain ev where ev: "trace w' = trace w0 @ ev"
      "\<forall>t. Removed t \<in> set ev \<longrightarrow>
         (\<exists>p \<in> set ps. p \<noteq> ''packages/static''
            \<and> t = os_path_join (cwd w0) (os_path_join p ''dist''))"
      using build_loop_trace [OF _ l] by blast
    have "Removed ?t \<notin> set ev"
    proof
      assume "Removed ?t \<in> set ev"
      then obtain p where p: "p \<in> set ps" "p \<noteq> ''packages/static''"
        "?t = os_path_join (cwd w) (os_path_join p ''dist'')"
        using ev(2) w0(1) by auto
      have "plain_relative p" using selected_plain_relative [of w a ps w0 p] h pk Inr p(1) by simp
      then show False using static_dist_only [of p "cwd w"] p(2,3) by simp
    qed
    then show ?thesis using b ev(1) w0(2,3) by simp
  qed
qed

theorem build_spares_static_dist_witness:
  "os_path_isabs (cwd example_world) \<and> valid_names example_world
   \<and> fst (packages (example_args ''static,extra'') example_world)
       = Inr [''packages/extra'', ''packages/static'']
   \<and> os_path_isdir ''packages/static/dist'' example_world
   \<and> Removed (os_path_join (cwd example_world) ''packages/static/dist'')
        \<notin> set (drop (length (trace example_world))
                  (trace (snd (build example_shell (example_args ''static,extra'') example_world))))
   \<and> System ''time npm run build'' ''/r/packages/static''
        \<in> set (trace (snd (build example_shell (example_args ''static,extra'') example_world)))
   \<and> Removed ''/r/packages/extra/dist''
        \<in> set (trace (snd (build example_shell (example_args ''static,extra'') example_world)))
   \<and> ''packages/extra'' \<noteq> ''packages/static''
   \<and> os_path_isdir (os_path_join ''packages/extra'' ''dist'') example_world
   \<and> (let d = os_path_abspath (os_path_join ''packages/extra'' ''dist'') example_world;
           w1 = example_world\<lparr>files := remove_tree d (files example_world),
                              trace := trace example_world @ [Removed d]\<rparr>
       in build_package example_shell ''packages/extra'' example_world
            = cmd example_shell ''time npm run build'' (Some ''packages/extra'') True w1
          \<and> files w1 d = None)
   \<and> build example_shell (example_args ''static,extra'') example_world
       = for_each (build_package example_shell) [''packages/extra'', ''packages/static'']
           (snd (packages (example_args ''static,extra'') example_world))
   \<and> fst (strict_shell ''time npm run build'' ''/r/packages/extra'' example_tree)
       \<noteq> fst (example_shell ''time npm run build'' ''/r/packages/extra'' example_tree)
   \<and> build example_shell (example_args ''static,extra'') example_world
       = build strict_shell (example_args ''static,extra'') example_world"
proof -
  let ?a = "example_args ''static,extra''"
  have a: "os_path_isabs (cwd example_world)" by code_simp
  have v: "valid_names example_world" by code_simp
  have f: "fst (packages ?a example_world) = Inr [''packages/extra'', ''packages/static'']"
    by code_simp
  then have pk: "packages ?a example_world
       = (Inr [''packages/extra'', ''packages/static''], snd (packages ?a example_world))"
    by (simp add: prod_eq_iff)
  have s: "os_path_isdir ''packages/static/dist'' example_world" by code_simp
  have b: "System ''time npm run build'' ''/r/packages/static''
        \<in> set (trace (snd (build example_shell ?a example_world)))"
    by code_simp
  have r: "Removed ''/r/packages/extra/dist''
        \<in> set (trace (snd (build example_shell ?a example_world)))"
    by code_simp
  have n: "''packages/extra'' \<noteq> ''packages/static''" by simp
  have d: "os_path_isdir (os_path_join ''packages/extra'' ''dist'') example_world" by code_simp
  have x: "fst (strict_shell ''time npm run build'' ''/r/packages/extra'' example_tree)
       \<noteq> fst (example_shell ''time npm run build'' ''/r/packages/extra'' example_tree)"
    by code_simp
  have "os_path_join (cwd example_world) ''packages/static'' = ''/r/packages/static''"
    by code_simp
  then have g: "\<forall>s d f. d = os_path_join (cwd example_world) ''packages/static''
                      \<or> f (os_path_join d ''dist'') = None
                    \<longrightarrow> example_shell s d f = strict_shell s d f"
    by (auto simp: strict_shell_def)
  show ?thesis
    using a v f pk s b r n d x g
      build_spares_static_dist [of example_world example_shell ?a "''packages/extra''"
        "[''packages/extra'', ''packages/static'']" "snd (packages ?a example_world)" strict_shell]
    by blast
qed

text \<open>
  Claim C10. When \<open>clean\<close> is given both \<open>--dist-only\<close> and \<open>--node-modules-only\<close>, the
  first wins: the folder list is exactly \<open>['dist']\<close>, the collected paths are the existing
  \<open>dist\<close> folders of the selected packages, and every collected path has \<open>dist\<close> as its
  final segment, so that no \<open>node_modules\<close> folder is collected. The handler \<open>clean\<close>
  announces and hands to the deleting workers exactly these paths, and it behaves as it
  does with \<open>--dist-only\<close> alone.
\<close>

theorem clean_dist_only_wins:
  assumes "dist_only a" and "node_modules_only a"
  shows "clean_folders a = [''dist'']
       \<and> clean_paths w v (clean_folders a)
           = map (\<lambda>p. os_path_abspath (os_path_join p ''dist'') w)
               (filter (\<lambda>p. os_path_exists (os_path_abspath (os_path_join p ''dist'') w) w) v)
       \<and> (\<forall>y \<in> set (clean_paths w v (clean_folders a)). spec_final_segment y = ''dist'')
       \<and> (packages a w0 = (Inr v, w) \<longrightarrow>
            clean pool sh a w0 =
              (let paths = map (\<lambda>p. os_path_abspath (os_path_join p ''dist'') w)
                             (filter (\<lambda>p. os_path_exists (os_path_abspath (os_path_join p ''dist'') w) w) v)
               in and_then
                    (if paths = [] then banner ''No node_modules or dist directories''
                     else and_then (banner (''Deleting '' @ str_join '', '' paths)) (\<lambda>_.
                          and_then (thread_map pool clean_f paths 10) (\<lambda>_. return ())))
                    (\<lambda>_.
                     and_then (banner (''Running '' @ quoted ''npm run clean'' @ '' if it exists...'')) (\<lambda>_ w1.
                     and_then (thread_map pool (clean_g sh) (map (\<lambda>path. os_path_abspath path w1) v) 10)
                       (\<lambda>_. return ()) w1))
                    w))
       \<and> clean pool sh a w0 = clean pool sh (a\<lparr>node_modules_only := False\<rparr>) w0"
proof -
  have f: "clean_folders a = [''dist'']" using assms(1) by (simp add: clean_folders_def)
  have s: "spec_final_segment (os_path_abspath (os_path_join p ''dist'') w) = ''dist''" for p
    by (simp add: os_path_abspath_def final_segment_join) (simp add: spec_final_segment_def)
  have h: "packages a w0 = (Inr v, w) \<Longrightarrow>
            clean pool sh a w0 =
              (let paths = map (\<lambda>p. os_path_abspath (os_path_join p ''dist'') w)
                             (filter (\<lambda>p. os_path_exists (os_path_abspath (os_path_join p ''dist'') w) w) v)
               in and_then
                    (if paths = [] then banner ''No node_modules or dist directories''
                     else and_then (banner (''Deleting '' @ str_join '', '' paths)) (\<lambda>_.
                          and_then (thread_map pool clean_f paths 10) (\<lambda>_. return ())))
                    (\<lambda>_.
                     and_then (banner (''Running '' @ quoted ''npm run clean'' @ '' if it exists...'')) (\<lambda>_ w1.
                     and_then (thread_map pool (clean_g sh) (map (\<lambda>path. os_path_abspath path w1) v) 10)
                       (\<lambda>_. return ()) w1))
                    w)"
    unfolding clean_def by (simp add: and_then_def [of "packages a"] f clean_paths_single Let_def)
  have p: "packages (a\<lparr>node_modules_only := False\<rparr>) = packages a"
    by (rule packages_args) simp
  have "clean_folders (a\<lparr>node_modules_only := False\<rparr>) = clean_folders a"
    using assms(1) by (simp add: clean_folders_def)
  then have e: "clean pool sh a w0 = clean pool sh (a\<lparr>node_modules_only := False\<rparr>) w0"
    unfolding clean_def p by simp
  show ?thesis unfolding f clean_paths_single using s h e by (auto simp: f clean_paths_single)
qed

theorem clean_dist_only_wins_witness:
  "dist_only (example_args []) \<and> node_modules_only (example_args [])
   \<and> fst (packages (example_args []) example_world) = Inr example_assembled
   \<and> os_path_isdir ''smc-hub/node_modules'' example_world
   \<and> clean_folders (example_args []) = [''dist'']
   \<and> clean_paths (snd (packages (example_args []) example_world)) example_assembled
         (clean_folders (example_args []))
       = [''/r/packages/extra/dist'', ''/r/packages/static/dist'']
   \<and> spec_final_segment ''/r/packages/extra/dist'' = ''dist''
   \<and> spec_final_segment ''/r/packages/static/dist'' = ''dist''
   \<and> clean example_pool example_shell (example_args []) example_world =
        (let paths = [''/r/packages/extra/dist'', ''/r/packages/static/dist'']
         in and_then
              (if paths = [] then banner ''No node_modules or dist directories''
               else and_then (banner (''Deleting '' @ str_join '', '' paths)) (\<lambda>_.
                    and_then (thread_map example_pool clean_f paths 10) (\<lambda>_. return ())))
              (\<lambda>_.
               and_then (banner (''Running '' @ quoted ''npm run clean'' @ '' if it exists...'')) (\<lambda>_ w1.
               and_then (thread_map example_pool (clean_g example_shell)
                           (map (\<lambda>path. os_path_abspath path w1) example_assembled) 10)
                 (\<lambda>_. return ()) w1))
              (snd (packages (example_args []) example_world)))
   \<and> clean example_pool example_shell (example_args []) example_world
       = clean example_pool example_shell ((example_args [])\<lparr>node_modules_only := False\<rparr>) example_world
   \<and> Removed ''/r/packages/extra/dist''
        \<in> set (trace (snd (clean example_pool example_shell (example_args []) example_world)))
   \<and> Removed ''/r/smc-hub/node_modules''
        \<notin> set (trace (snd (clean example_pool example_shell (example_args []) example_world)))"
proof -
  let ?a = "example_args []"
  let ?w = "snd (packages ?a example_world)"
  have a: "dist_only ?a" "node_modules_only ?a"
    by (simp_all add: example_args_def)
  have f: "fst (packages ?a example_world) = Inr example_assembled" by code_simp
  then have pk: "packages ?a example_world = (Inr example_assembled, ?w)"
    by (simp add: prod_eq_iff)
  have n: "os_path_isdir ''smc-hub/node_modules'' example_world" by code_simp
  have c: "clean_paths ?w example_assembled (clean_folders ?a)
       = [''/r/packages/extra/dist'', ''/r/packages/static/dist'']" by code_simp
  have r1: "Removed ''/r/packages/extra/dist''
        \<in> set (trace (snd (clean example_pool example_shell ?a example_world)))"
    by code_simp
  have r2: "Removed ''/r/smc-hub/node_modules''
        \<notin> set (trace (snd (clean example_pool example_shell ?a example_world)))"
    by code_simp
  note t = clean_dist_only_wins [OF a, of ?w example_assembled example_world example_pool example_shell]
  have t2: "map (\<lambda>p. os_path_abspath (os_path_join p ''dist'') ?w)
               (filter (\<lambda>p. os_path_exists (os_path_abspath (os_path_join p ''dist'') ?w) ?w)
                  example_assembled)
            = [''/r/packages/extra/dist'', ''/r/packages/static/dist'']"
    using t c by simp
  have t3: "spec_final_segment ''/r/packages/extra/dist'' = ''dist''"
    "spec_final_segment ''/r/packages/static/dist'' = ''dist''"
    using t c by simp_all
  have t4: "clean example_pool example_shell ?a example_world =
        (let paths = [''/r/packages/extra/dist'', ''/r/packages/static/dist'']
         in and_then
              (if paths = [] then banner ''No node_modules or dist directories''
               else and_then (banner (''Deleting '' @ str_join '', '' paths)) (\<lambda>_.
                    and_then (thread_map example_pool clean_f paths 10) (\<lambda>_. return ())))
              (\<lambda>_.
               and_then (banner (''Running '' @ quoted ''npm run clean'' @ '' if it exists...'')) (\<lambda>_ w1.
               and_then (thread_map example_pool (clean_g example_shell)
                           (map (\<lambda>path. os_path_abspath path w1) example_assembled) 10)
                 (\<lambda>_. return ()) w1))
              ?w)"
    using t pk unfolding t2 by blast
  have t5: "clean example_pool example_shell ?a example_world
       = clean example_pool example_shell (?a\<lparr>node_modules_only := False\<rparr>) example_world"
    using t by blast
  have t1: "clean_folders ?a = [''dist'']" using t by blast
  show ?thesis by (intro conjI a f n t1 c t3 t4 t5 r1 r2)
qed

end
